theory Spec2Isabelle
  imports Main
begin

section \<open>The editor component of the API definition editor\<close>

text \<open>
  A shallow embedding of \<^verbatim>\<open>src/app/editor/editor.component.ts\<close>. The component is
  driven by a single-threaded event loop: every public method, every timer callback and
  every promise reaction runs to its end before the next one starts. The model is a
  state record holding the component's fields together with the part of its surroundings
  that the methods read or write (the editing surface's current value, the recovery
  store, the timer table of the event loop and a time-stamped list of the calls made to
  collaborators), and one state transformer per method, timer callback and promise
  reaction.
\<close>

subsection \<open>Values\<close>

text \<open>
  \<^verbatim>\<open>let spec: any = this.apiEditor.getValue().spec\<close> is tested with
  \<^verbatim>\<open>typeof spec === "object"\<close>. A value that passes the test is \<open>Structured\<close>; the
  component assigns any other value to a \<^verbatim>\<open>string\<close> variable, so it is \<open>RawText\<close>.
  The type \<open>'d\<close> of structured documents is left open.
\<close>

datatype 'd spec_value = Structured 'd | RawText string

record 'd ApiDefinition =
  spec :: "'d spec_value"

text \<open>
  Modelled from the spec: the enumeration \<^verbatim>\<open>ApiFileEncoding\<close> lives in
  \<^verbatim>\<open>api-file-encoding.type.ts\<close>, which is not among the sources; the specification
  gives it the two values JSON and YAML.
\<close>

datatype ApiFileEncoding = JSON | YAML

text \<open>
  The two library serializers, taken as parameters:
  \<^verbatim>\<open>JSON.stringify(spec, null, 4)\<close> and
  \<^verbatim>\<open>YAML.safeDump(spec, {indent: 4, lineWidth: 110, noRefs: true})\<close>.
\<close>

record 'd serializers =
  JSON_stringify :: "'d \<Rightarrow> string"
  YAML_safeDump :: "'d \<Rightarrow> string"

text \<open>The value a transport promise rejects with; the component reads its \<^verbatim>\<open>message\<close>.\<close>

record js_error =
  message :: string

datatype 'a settled = Fulfilled 'a | Rejected js_error

datatype validation_registry = DisableValidationRegistry

subsection \<open>Calls to collaborators\<close>

datatype ('d, 'g) effect =
    StorageStore "'d ApiDefinition"
  | StorageClear
  | DownloadToFS string string string
  | GenerateAndDownload 'g string string
  | SendMessage string "'d spec_value"
  | OnCloseEmit

subsection \<open>Timers of the event loop\<close>

text \<open>
  The component passes two closures to \<^verbatim>\<open>setTimeout\<close>: the one of
  \<^verbatim>\<open>documentChanged\<close> and the one of the success branch of \<^verbatim>\<open>generate\<close>.
\<close>

datatype callback = PersistCb | HideSuccessToastCb

record timer =
  handle :: nat
  due :: nat
  callback :: callback

subsection \<open>State\<close>

record ('d, 'g) state =
  encoding :: "ApiFileEncoding option"
  generating :: bool
  generateError :: "string option"
  showSuccessToast :: bool
  showErrorToast :: bool
  toastTimeoutId :: "nat option"
  persistenceTimeout :: "nat option"
  validation :: "validation_registry option"
  apiEditor :: "'d ApiDefinition"
  storage :: "'d ApiDefinition option"
  now :: nat
  timers :: "timer list"
  next_handle :: nat
  effects :: "(nat \<times> ('d, 'g) effect) list"

text \<open>
  The fields up to \<open>validation\<close> are the component's own (\<open>None\<close> stands for
  \<^verbatim>\<open>null\<close> and \<^verbatim>\<open>undefined\<close>; \<open>encoding\<close> is an input that may be unbound).
  \<open>apiEditor\<close> is what \<^verbatim>\<open>this.apiEditor.getValue()\<close> returns at the moment,
  \<open>now\<close> is the time in milliseconds, \<open>timers\<close> the pending timers in the order of
  their creation, \<open>next_handle\<close> the handle the next \<^verbatim>\<open>setTimeout\<close> returns, and
  \<open>effects\<close> the calls made so far, each with the time of the call.
\<close>

definition emit :: "('d, 'g) effect \<Rightarrow> ('d, 'g) state \<Rightarrow> ('d, 'g) state" where
  "emit e s = s\<lparr>effects := effects s @ [(now s, e)]\<rparr>"

text \<open>
  Modelled from the spec: \<^verbatim>\<open>StorageService\<close> (\<^verbatim>\<open>services/storage.service.ts\<close>) is
  not among the sources. Per the specification the recovery store holds at most one
  snapshot: \<^verbatim>\<open>store\<close> overwrites it and \<^verbatim>\<open>clear\<close> erases it.
\<close>

definition storage_store :: "'d ApiDefinition \<Rightarrow> ('d, 'g) state \<Rightarrow> ('d, 'g) state" where
  "storage_store v s = emit (StorageStore v) (s\<lparr>storage := Some v\<rparr>)"

definition storage_clear :: "('d, 'g) state \<Rightarrow> ('d, 'g) state" where
  "storage_clear s = emit StorageClear (s\<lparr>storage := None\<rparr>)"

definition setTimeout :: "callback \<Rightarrow> nat \<Rightarrow> ('d, 'g) state \<Rightarrow> nat \<times> ('d, 'g) state" where
  "setTimeout f delay s =
     (next_handle s,
      s\<lparr>timers := timers s @ [\<lparr>handle = next_handle s, due = now s + delay, callback = f\<rparr>],
        next_handle := next_handle s + 1\<rparr>)"

definition clearTimeout :: "nat option \<Rightarrow> ('d, 'g) state \<Rightarrow> ('d, 'g) state" where
  "clearTimeout h s =
     (case h of
        None \<Rightarrow> s
      | Some i \<Rightarrow> s\<lparr>timers := filter (\<lambda>t. handle t \<noteq> i) (timers s)\<rparr>)"

text \<open>The truth value JavaScript gives a number, \<^verbatim>\<open>null\<close> or \<^verbatim>\<open>undefined\<close>.\<close>

definition truthy :: "nat option \<Rightarrow> bool" where
  "truthy h = (case h of None \<Rightarrow> False | Some i \<Rightarrow> i \<noteq> 0)"

subsection \<open>Methods of the component\<close>

definition documentChanged :: "('d, 'g) state \<Rightarrow> ('d, 'g) state" where
  "documentChanged s =
     (let s1 = (if truthy (persistenceTimeout s)
                then (clearTimeout (persistenceTimeout s) s)\<lparr>persistenceTimeout := None\<rparr>
                else s);
          (h, s2) = setTimeout PersistCb 5000 s1
      in s2\<lparr>persistenceTimeout := Some h\<rparr>)"

definition persist_callback :: "('d, 'g) state \<Rightarrow> ('d, 'g) state" where
  "persist_callback s = (storage_store (apiEditor s) s)\<lparr>persistenceTimeout := None\<rparr>"

definition saveExt :: "'d serializers \<Rightarrow> ('d, 'g) state \<Rightarrow> ('d, 'g) state" where
  "saveExt lib s =
     (case spec (apiEditor s) of
        Structured d \<Rightarrow>
          (let payload =
                 (case encoding s of
                    Some JSON \<Rightarrow> RawText (JSON_stringify lib d)
                  | Some YAML \<Rightarrow> RawText (YAML_safeDump lib d)
                  | None \<Rightarrow> Structured d)
           in emit (SendMessage ''save-req'' payload) s)
      | RawText t \<Rightarrow> s)"

text \<open>
  \<^verbatim>\<open>save\<close> up to the call of \<^verbatim>\<open>downloadToFS\<close>, and the reaction registered with
  \<^verbatim>\<open>then\<close>: it gets the way the transport's promise settled and returns the way the
  promise \<^verbatim>\<open>save\<close> returned settles.
\<close>

definition save_request :: "'d serializers \<Rightarrow> string \<Rightarrow> ('d, 'g) state \<Rightarrow> ('d, 'g) state" where
  "save_request lib format s =
     (let s1 = s\<lparr>generateError := None\<rparr>;
          ct = ''application/json'';
          filename = ''openapi-spec'';
          (content, filename') =
             (case spec (apiEditor s1) of
                Structured d \<Rightarrow>
                  (if format = ''json''
                   then (JSON_stringify lib d, filename @ ''.json'')
                   else (YAML_safeDump lib d, filename @ ''.yaml''))
              | RawText t \<Rightarrow> (t, filename))
      in emit (DownloadToFS content ct filename') s1)"

definition save_settled :: "bool settled \<Rightarrow> ('d, 'g) state \<Rightarrow> bool settled \<times> ('d, 'g) state" where
  "save_settled r s =
     (case r of
        Fulfilled rval \<Rightarrow> (Fulfilled rval, storage_clear s)
      | Rejected e \<Rightarrow> (Rejected e, s))"

definition close :: "('d, 'g) state \<Rightarrow> ('d, 'g) state" where
  "close s = emit OnCloseEmit (storage_clear (s\<lparr>generateError := None\<rparr>))"

definition saveAndClose_request :: "'d serializers \<Rightarrow> ('d, 'g) state \<Rightarrow> ('d, 'g) state" where
  "saveAndClose_request lib s = save_request lib ''json'' s"

definition saveAndClose_settled :: "bool settled \<Rightarrow> ('d, 'g) state \<Rightarrow> ('d, 'g) state" where
  "saveAndClose_settled r s =
     (case save_settled r s of
        (Fulfilled rval, s') \<Rightarrow> close s'
      | (Rejected e, s') \<Rightarrow> s')"

definition generate_request :: "'d serializers \<Rightarrow> 'g \<Rightarrow> ('d, 'g) state \<Rightarrow> ('d, 'g) state" where
  "generate_request lib gconfig s =
     (let s1 = s\<lparr>generateError := None, showErrorToast := False, showSuccessToast := False\<rparr>;
          content =
             (case spec (apiEditor s1) of
                Structured d \<Rightarrow> JSON_stringify lib d
              | RawText t \<Rightarrow> t);
          filename = ''camel-project.zip'';
          s2 = s1\<lparr>generating := True\<rparr>
      in emit (GenerateAndDownload gconfig content filename) s2)"

definition generate_settled :: "unit settled \<Rightarrow> ('d, 'g) state \<Rightarrow> ('d, 'g) state" where
  "generate_settled r s =
     (case r of
        Fulfilled u \<Rightarrow>
          (let s1 = s\<lparr>generating := False, showSuccessToast := True\<rparr>;
               (h, s2) = setTimeout HideSuccessToastCb 5000 s1
           in s2\<lparr>toastTimeoutId := Some h\<rparr>)
      | Rejected error \<Rightarrow>
          s\<lparr>generating := False, generateError := Some (message error),
            showErrorToast := True\<rparr>)"

definition hide_success_callback :: "('d, 'g) state \<Rightarrow> ('d, 'g) state" where
  "hide_success_callback s = s\<lparr>showSuccessToast := False\<rparr>"

definition closeSuccessToast :: "('d, 'g) state \<Rightarrow> ('d, 'g) state" where
  "closeSuccessToast s = clearTimeout (toastTimeoutId s) (s\<lparr>showSuccessToast := False\<rparr>)"

definition closeErrorToast :: "('d, 'g) state \<Rightarrow> ('d, 'g) state" where
  "closeErrorToast s = clearTimeout (toastTimeoutId s) (s\<lparr>showErrorToast := False\<rparr>)"

definition setValidation :: "bool \<Rightarrow> ('d, 'g) state \<Rightarrow> ('d, 'g) state" where
  "setValidation enabled s =
     (if enabled then s\<lparr>validation := None\<rparr>
      else s\<lparr>validation := Some DisableValidationRegistry\<rparr>)"

subsection \<open>Passing of time\<close>

fun run_callback :: "callback \<Rightarrow> ('d, 'g) state \<Rightarrow> ('d, 'g) state" where
  "run_callback PersistCb s = persist_callback s"
| "run_callback HideSuccessToastCb s = hide_success_callback s"

text \<open>
  The timer that fires next: among the pending ones, the one that is due first, and of
  several due at the same time the one created first.
\<close>

fun earliest :: "timer list \<Rightarrow> timer option" where
  "earliest [] = None"
| "earliest (t # ts) =
     (case earliest ts of
        None \<Rightarrow> Some t
      | Some u \<Rightarrow> Some (if due t \<le> due u then t else u))"

definition next_due :: "nat \<Rightarrow> timer list \<Rightarrow> timer option" where
  "next_due target ts = earliest (filter (\<lambda>t. due t \<le> target) ts)"

text \<open>
  Time runs up to \<open>target\<close>: as long as a timer is due by then, the clock moves to its
  due time, the timer leaves the table and its callback runs.
\<close>

function run_until :: "nat \<Rightarrow> ('d, 'g) state \<Rightarrow> ('d, 'g) state" where
  "run_until target s =
     (case next_due target (timers s) of
        None \<Rightarrow> s\<lparr>now := max (now s) target\<rparr>
      | Some t \<Rightarrow>
          run_until target
            (run_callback (callback t)
               (s\<lparr>now := max (now s) (due t), timers := remove1 t (timers s)\<rparr>)))"
  by pat_completeness auto
termination
proof (relation "measure (\<lambda>(target, s). length (timers s))")
  show "wf (measure (\<lambda>(target, s :: ('d, 'g) state). length (timers s)))"
    by simp
next
  fix target :: nat and s :: "('d, 'g) state" and t :: timer
  assume nd: "next_due target (timers s) = Some t"
  have mem: "earliest ts = Some u \<Longrightarrow> u \<in> set ts" for ts u
    by (induction ts arbitrary: u) (auto split: option.splits if_splits)
  from nd have "t \<in> set (timers s)"
    using mem [of "filter (\<lambda>t. due t \<le> target) (timers s)" t]
    by (simp add: next_due_def)
  then have "length (remove1 t (timers s)) < length (timers s)"
    using length_pos_if_in_set [of t "timers s"] by (simp add: length_remove1)
  moreover have "timers (run_callback c s') = timers s'" for c and s' :: "('d, 'g) state"
    by (cases c)
      (simp_all add: persist_callback_def hide_success_callback_def storage_store_def emit_def)
  ultimately show
    "((target, run_callback (callback t)
         (s\<lparr>now := max (now s) (due t), timers := remove1 t (timers s)\<rparr>)),
      (target, s)) \<in> measure (\<lambda>(target, s). length (timers s))"
    by simp
qed

declare run_until.simps [simp del]

definition elapse :: "nat \<Rightarrow> ('d, 'g) state \<Rightarrow> ('d, 'g) state" where
  "elapse dt s = run_until (now s + dt) s"

subsection \<open>Runs of the component\<close>

text \<open>
  What can happen to the component: a call of a public method, the settling of the
  promise a transport call returned, or time passing.
\<close>

datatype 'g event =
    DocumentChanged
  | SaveExt
  | Save string
  | SaveSettled "bool settled"
  | Close
  | SaveAndClose
  | SaveAndCloseSettled "bool settled"
  | Generate 'g
  | GenerateSettled "unit settled"
  | CloseSuccessToast
  | CloseErrorToast
  | SetValidation bool
  | Elapse nat

fun step :: "'d serializers \<Rightarrow> 'g event \<Rightarrow> ('d, 'g) state \<Rightarrow> ('d, 'g) state" where
  "step lib DocumentChanged s = documentChanged s"
| "step lib SaveExt s = saveExt lib s"
| "step lib (Save format) s = save_request lib format s"
| "step lib (SaveSettled r) s = snd (save_settled r s)"
| "step lib Close s = close s"
| "step lib SaveAndClose s = saveAndClose_request lib s"
| "step lib (SaveAndCloseSettled r) s = saveAndClose_settled r s"
| "step lib (Generate gconfig) s = generate_request lib gconfig s"
| "step lib (GenerateSettled r) s = generate_settled r s"
| "step lib CloseSuccessToast s = closeSuccessToast s"
| "step lib CloseErrorToast s = closeErrorToast s"
| "step lib (SetValidation enabled) s = setValidation enabled s"
| "step lib (Elapse dt) s = elapse dt s"

fun run :: "'d serializers \<Rightarrow> 'g event list \<Rightarrow> ('d, 'g) state \<Rightarrow> ('d, 'g) state" where
  "run lib [] s = s"
| "run lib (ev # evs) s = run lib evs (step lib ev s)"

text \<open>The events that are no part of a call of \<^verbatim>\<open>save\<close>, \<^verbatim>\<open>close\<close> or \<^verbatim>\<open>generate\<close>.\<close>

fun quiet :: "'g event \<Rightarrow> bool" where
  "quiet DocumentChanged = True"
| "quiet SaveExt = True"
| "quiet CloseSuccessToast = True"
| "quiet CloseErrorToast = True"
| "quiet (SetValidation enabled) = True"
| "quiet (Elapse dt) = True"
| "quiet ev = False"

text \<open>The component as its field initializers leave it, at time 0 with no timer pending.\<close>

definition initial :: "'d ApiDefinition \<Rightarrow> ApiFileEncoding option \<Rightarrow> ('d, 'g) state" where
  "initial api enc =
     \<lparr>encoding = enc, generating = False, generateError = None, showSuccessToast = False,
      showErrorToast = False, toastTimeoutId = None, persistenceTimeout = None,
      validation = None, apiEditor = api, storage = None, now = 0, timers = [],
      next_handle = 1, effects = []\<rparr>"

subsection \<open>Observations\<close>

definition pending_persist :: "('d, 'g) state \<Rightarrow> timer list" where
  "pending_persist s = filter (\<lambda>t. callback t = PersistCb) (timers s)"

definition pending_toast :: "('d, 'g) state \<Rightarrow> timer list" where
  "pending_toast s = filter (\<lambda>t. callback t = HideSuccessToastCb) (timers s)"

fun is_store :: "('d, 'g) effect \<Rightarrow> bool" where
  "is_store (StorageStore v) = True"
| "is_store e = False"

definition persistence_writes :: "('d, 'g) state \<Rightarrow> (nat \<times> ('d, 'g) effect) list" where
  "persistence_writes s = filter (\<lambda>c. is_store (snd c)) (effects s)"

fun is_download :: "('d, 'g) effect \<Rightarrow> bool" where
  "is_download (DownloadToFS content ct filename) = True"
| "is_download (GenerateAndDownload gconfig content filename) = True"
| "is_download e = False"

definition download_calls :: "('d, 'g) state \<Rightarrow> (nat \<times> ('d, 'g) effect) list" where
  "download_calls s = filter (\<lambda>c. is_download (snd c)) (effects s)"

fun is_close :: "('d, 'g) effect \<Rightarrow> bool" where
  "is_close OnCloseEmit = True"
| "is_close e = False"

definition closed_signals :: "('d, 'g) state \<Rightarrow> (nat \<times> ('d, 'g) effect) list" where
  "closed_signals s = filter (\<lambda>c. is_close (snd c)) (effects s)"

text \<open>
  A burst of edits: \<^verbatim>\<open>documentChanged\<close> is called, and once more after each of the
  given gaps.
\<close>

fun edits :: "nat list \<Rightarrow> ('d, 'g) state \<Rightarrow> ('d, 'g) state" where
  "edits [] s = documentChanged s"
| "edits (d # ds) s = edits ds (elapse d (documentChanged s))"

text \<open>
  The states the timer bookkeeping of \<^verbatim>\<open>documentChanged\<close> relies on: handles are
  positive (so that a stored handle is truthy), and a pending persistence timer is the
  one whose handle \<^verbatim>\<open>persistenceTimeout\<close> holds.
\<close>

definition wf_state :: "('d, 'g) state \<Rightarrow> bool" where
  "wf_state s \<longleftrightarrow>
     next_handle s \<noteq> 0 \<and>
     length (pending_persist s) \<le> 1 \<and>
     list_all (\<lambda>t. handle t \<noteq> 0 \<and> persistenceTimeout s = Some (handle t)) (pending_persist s)"

subsection \<open>The encoder of the specification\<close>

text \<open>
  This definition follows the specification's words (section 4.1), not the source: text
  is returned unchanged, a structured value is serialized in the given encoding.
\<close>

fun Encoder_serialize :: "'d serializers \<Rightarrow> 'd spec_value \<Rightarrow> ApiFileEncoding \<Rightarrow> string" where
  "Encoder_serialize lib (RawText t) enc = t"
| "Encoder_serialize lib (Structured d) JSON = JSON_stringify lib d"
| "Encoder_serialize lib (Structured d) YAML = YAML_safeDump lib d"

subsection \<open>A concrete session\<close>

text \<open>
  The empty object as the only structured document: \<^verbatim>\<open>JSON.stringify({}, null, 4)\<close> is
  \<^verbatim>\<open>{}\<close>, and \<^verbatim>\<open>YAML.safeDump({})\<close> is \<^verbatim>\<open>{}\<close> followed by a line feed.
\<close>

definition empty_object_lib :: "unit serializers" where
  "empty_object_lib = \<lparr>JSON_stringify = (\<lambda>d. ''{}''), YAML_safeDump = (\<lambda>d. ''{}'' @ [CHR 0x0A])\<rparr>"

definition empty_object_api :: "unit ApiDefinition" where
  "empty_object_api = \<lparr>spec = Structured ()\<rparr>"

definition text_api :: "unit ApiDefinition" where
  "text_api = \<lparr>spec = RawText ''openapi: 3.0.2''\<rparr>"

definition quota_exceeded :: js_error where
  "quota_exceeded = \<lparr>message = ''quota exceeded''\<rparr>"

definition session0 :: "(unit, unit) state" where
  "session0 = initial empty_object_api (Some JSON)"

definition text_session0 :: "(unit, unit) state" where
  "text_session0 = initial text_api (Some YAML)"

section \<open>Auxiliary facts\<close>

subsection \<open>Timers firing as time passes\<close>

lemmas cb_defs = persist_callback_def hide_success_callback_def storage_store_def emit_def

lemma earliest_mem: "earliest ts = Some u \<Longrightarrow> u \<in> set ts"
  by (induction ts arbitrary: u) (auto split: option.splits if_splits)

lemma earliest_None: "earliest ts = None \<longleftrightarrow> ts = []"
  by (cases ts) (auto split: option.splits)

lemma earliest_min: "earliest ts = Some u \<Longrightarrow> v \<in> set ts \<Longrightarrow> due u \<le> due v"
  by (induction ts arbitrary: u) (fastforce simp: earliest_None split: option.splits if_splits)+

lemma next_due_mem: "next_due T ts = Some u \<Longrightarrow> u \<in> set ts \<and> due u \<le> T"
  using earliest_mem [of "filter (\<lambda>t. due t \<le> T) ts" u] by (simp add: next_due_def)

lemma next_due_min: "next_due T ts = Some u \<Longrightarrow> v \<in> set ts \<Longrightarrow> due v \<le> T \<Longrightarrow> due u \<le> due v"
  using earliest_min [of "filter (\<lambda>t. due t \<le> T) ts" u v] by (simp add: next_due_def)

lemma next_due_None: "next_due T ts = None \<Longrightarrow> v \<in> set ts \<Longrightarrow> T < due v"
  by (auto simp: next_due_def earliest_None filter_empty_conv)

lemma run_until_frame:
  "generating (run_until T s) = generating s \<and>
   generateError (run_until T s) = generateError s \<and>
   showErrorToast (run_until T s) = showErrorToast s \<and>
   toastTimeoutId (run_until T s) = toastTimeoutId s \<and>
   encoding (run_until T s) = encoding s \<and>
   validation (run_until T s) = validation s \<and>
   apiEditor (run_until T s) = apiEditor s \<and>
   next_handle (run_until T s) = next_handle s"
proof (induction T s rule: run_until.induct)
  case (1 target s)
  show ?case
  proof (cases "next_due target (timers s)")
    case None
    then show ?thesis by (simp add: run_until.simps [of target s])
  next
    case (Some t)
    with "1.IH" [OF Some] show ?thesis
      by (cases "callback t") (simp_all add: run_until.simps [of target s] cb_defs)
  qed
qed

lemma run_until_now: "now (run_until T s) = max (now s) T"
proof (induction T s rule: run_until.induct)
  case (1 target s)
  show ?case
  proof (cases "next_due target (timers s)")
    case None
    then show ?thesis by (simp add: run_until.simps [of target s])
  next
    case (Some t)
    with "1.IH" [OF Some] next_due_mem [OF Some] show ?thesis
      by (cases "callback t") (auto simp: run_until.simps [of target s] cb_defs)
  qed
qed


text \<open>No persistence timer due by the target: nothing is written.\<close>

lemma run_until_no_persist_due:
  "\<forall>t\<in>set (pending_persist s). T < due t \<Longrightarrow>
   effects (run_until T s) = effects s \<and> storage (run_until T s) = storage s \<and>
   persistenceTimeout (run_until T s) = persistenceTimeout s \<and>
   pending_persist (run_until T s) = pending_persist s"
proof (induction T s rule: run_until.induct)
  case (1 target s)
  show ?case
  proof (cases "next_due target (timers s)")
    case None
    then show ?thesis by (simp add: run_until.simps [of target s] pending_persist_def)
  next
    case (Some t)
    let ?s' = "run_callback (callback t)
               (s\<lparr>now := max (now s) (due t), timers := remove1 t (timers s)\<rparr>)"
    from next_due_mem [OF Some] "1.prems" have cb: "callback t = HideSuccessToastCb"
      by (cases "callback t") (auto simp: pending_persist_def)
    then have t_out: "t \<notin> set (pending_persist s)"
      by (simp add: pending_persist_def)
    have same: "pending_persist ?s' = pending_persist s"
      using cb t_out by (simp add: pending_persist_def cb_defs filter_remove1 remove1_idem)
    have rest: "effects ?s' = effects s" "storage ?s' = storage s"
      "persistenceTimeout ?s' = persistenceTimeout s"
      using cb by (simp_all add: cb_defs)
    from "1.prems" same have "\<forall>t\<in>set (pending_persist ?s'). target < due t" by simp
    from "1.IH" [OF Some this] same rest Some show ?thesis
      by (simp add: run_until.simps [of target s])
  qed
qed

text \<open>The one pending persistence timer is due by the target: one write, at its due time.\<close>

lemma run_until_persist_due:
  "pending_persist s = [p] \<Longrightarrow> due p \<le> T \<Longrightarrow> now s \<le> due p \<Longrightarrow>
   effects (run_until T s) = effects s @ [(due p, StorageStore (apiEditor s))] \<and>
   storage (run_until T s) = Some (apiEditor s) \<and>
   persistenceTimeout (run_until T s) = None \<and>
   pending_persist (run_until T s) = []"
proof (induction T s rule: run_until.induct)
  case (1 target s)
  from "1.prems"(1) have "p \<in> set (filter (\<lambda>t. callback t = PersistCb) (timers s))"
    by (simp add: pending_persist_def)
  then have p_in: "p \<in> set (timers s)" and p_cb: "callback p = PersistCb"
    by simp_all
  show ?case
  proof (cases "next_due target (timers s)")
    case None
    from next_due_None [OF None p_in] "1.prems" show ?thesis by simp
  next
    case (Some t)
    let ?s0 = "s\<lparr>now := max (now s) (due t), timers := remove1 t (timers s)\<rparr>"
    let ?s' = "run_callback (callback t) ?s0"
    have unf: "run_until target s = run_until target ?s'"
      using Some by (simp add: run_until.simps [of target s])
    have le: "due t \<le> due p"
      using next_due_min [OF Some p_in] "1.prems" by simp
    show ?thesis
    proof (cases "t = p")
      case True
      have pp: "pending_persist ?s' = []"
        using True p_cb "1.prems"(1) by (simp add: pending_persist_def cb_defs filter_remove1)
      then have "\<forall>t\<in>set (pending_persist ?s'). target < due t" by simp
      from run_until_no_persist_due [OF this] pp
      have "effects (run_until target ?s') = effects ?s'"
        "storage (run_until target ?s') = storage ?s'"
        "persistenceTimeout (run_until target ?s') = persistenceTimeout ?s'"
        "pending_persist (run_until target ?s') = []" by simp_all
      moreover have "effects ?s' = effects s @ [(due p, StorageStore (apiEditor s))]"
        "storage ?s' = Some (apiEditor s)" "persistenceTimeout ?s' = None"
        using True p_cb "1.prems"(3) by (simp_all add: cb_defs max_def)
      ultimately show ?thesis using unf by simp
    next
      case False
      from next_due_mem [OF Some] have t_in: "t \<in> set (timers s)" by simp
      have cb: "callback t = HideSuccessToastCb"
      proof (cases "callback t")
        case PersistCb
        with t_in have "t \<in> set (pending_persist s)" by (simp add: pending_persist_def)
        with "1.prems"(1) False show ?thesis by simp
      qed simp
      then have t_out: "t \<notin> set (pending_persist s)" by (simp add: pending_persist_def)
      have same: "pending_persist ?s' = [p]"
        using cb False "1.prems"(1)
        by (simp add: pending_persist_def cb_defs filter_remove1)
      have now': "now ?s' \<le> due p"
        using cb le "1.prems"(3) by (simp add: cb_defs)
      have rest: "effects ?s' = effects s" "apiEditor ?s' = apiEditor s"
        using cb by (simp_all add: cb_defs)
      from "1.IH" [OF Some same "1.prems"(2) now'] rest unf show ?thesis by simp
    qed
  qed
qed

subsection \<open>Edits and the persistence timer\<close>

lemma run_until_wf: "wf_state s \<Longrightarrow> wf_state (run_until T s)"
proof (induction T s rule: run_until.induct)
  case (1 target s)
  show ?case
  proof (cases "next_due target (timers s)")
    case None
    with "1.prems" show ?thesis
      by (simp add: run_until.simps [of target s] wf_state_def pending_persist_def)
  next
    case (Some t)
    let ?s' = "run_callback (callback t)
               (s\<lparr>now := max (now s) (due t), timers := remove1 t (timers s)\<rparr>)"
    have "wf_state ?s'"
    proof (cases "callback t")
      case PersistCb
      with next_due_mem [OF Some] have "t \<in> set (pending_persist s)"
        by (simp add: pending_persist_def)
      with "1.prems" have "pending_persist s = [t]"
        by (cases "pending_persist s") (auto simp: wf_state_def)
      then have "pending_persist ?s' = []"
        using PersistCb by (simp add: pending_persist_def cb_defs filter_remove1)
      with "1.prems" PersistCb show ?thesis
        by (simp add: wf_state_def cb_defs)
    next
      case HideSuccessToastCb
      then have "t \<notin> set (pending_persist s)" by (simp add: pending_persist_def)
      then have "pending_persist ?s' = pending_persist s"
        using HideSuccessToastCb
        by (simp add: pending_persist_def cb_defs filter_remove1 remove1_idem)
      with "1.prems" HideSuccessToastCb show ?thesis
        by (simp add: wf_state_def cb_defs)
    qed
    from "1.IH" [OF Some this] Some show ?thesis
      by (simp add: run_until.simps [of target s])
  qed
qed

lemma stale_cancelled:
  "list_all (\<lambda>t. handle t \<noteq> 0 \<and> Some i = Some (handle t)) (filter P ts) \<Longrightarrow>
   filter P (filter (\<lambda>t. handle t \<noteq> i) ts) = []"
  by (induction ts) auto

lemma none_stale:
  "list_all (\<lambda>t. handle t \<noteq> 0 \<and> po = Some (handle t)) (filter P ts) \<Longrightarrow> \<not> truthy po \<Longrightarrow>
   filter P ts = []"
  by (induction ts) (auto simp: truthy_def split: option.splits)

lemma documentChanged_pending:
  assumes "wf_state s"
  shows "pending_persist (documentChanged s) =
           [\<lparr>handle = next_handle s, due = now s + 5000, callback = PersistCb\<rparr>]"
proof (cases "truthy (persistenceTimeout s)")
  case True
  then obtain i where i: "persistenceTimeout s = Some i" "i \<noteq> 0"
    by (auto simp: truthy_def split: option.splits)
  with assms have "filter (\<lambda>t. callback t = PersistCb) (filter (\<lambda>t. handle t \<noteq> i) (timers s)) = []"
    using stale_cancelled [of i "\<lambda>t. callback t = PersistCb" "timers s"]
    by (simp add: wf_state_def pending_persist_def)
  with True i show ?thesis
    by (simp add: documentChanged_def setTimeout_def clearTimeout_def pending_persist_def)
next
  case False
  with assms have "filter (\<lambda>t. callback t = PersistCb) (timers s) = []"
    using none_stale [of "persistenceTimeout s" "\<lambda>t. callback t = PersistCb" "timers s"]
    by (simp add: wf_state_def pending_persist_def)
  with False show ?thesis
    by (simp add: documentChanged_def setTimeout_def pending_persist_def)
qed

lemma documentChanged_frame:
  "now (documentChanged s) = now s \<and> effects (documentChanged s) = effects s \<and>
   apiEditor (documentChanged s) = apiEditor s \<and> storage (documentChanged s) = storage s \<and>
   next_handle (documentChanged s) = next_handle s + 1 \<and>
   persistenceTimeout (documentChanged s) = Some (next_handle s) \<and>
   generateError (documentChanged s) = generateError s \<and>
   generating (documentChanged s) = generating s \<and>
   showErrorToast (documentChanged s) = showErrorToast s \<and>
   showSuccessToast (documentChanged s) = showSuccessToast s"
  by (simp add: documentChanged_def setTimeout_def clearTimeout_def split: option.splits)

lemma documentChanged_wf: "wf_state s \<Longrightarrow> wf_state (documentChanged s)"
  using documentChanged_pending [of s] documentChanged_frame [of s]
  by (simp add: wf_state_def)

lemma elapse_wf: "wf_state s \<Longrightarrow> wf_state (elapse dt s)"
  by (simp add: elapse_def run_until_wf)

lemma edits_facts:
  "wf_state s \<Longrightarrow> list_all (\<lambda>d. d < 5000) ds \<Longrightarrow>
   wf_state (edits ds s) \<and>
   (\<exists>p. pending_persist (edits ds s) = [p] \<and> due p = now (edits ds s) + 5000) \<and>
   effects (edits ds s) = effects s \<and> apiEditor (edits ds s) = apiEditor s \<and>
   now (edits ds s) = now s + sum_list ds"
proof (induction ds arbitrary: s)
  case Nil
  then show ?case
    using documentChanged_pending [of s] documentChanged_frame [of s] documentChanged_wf [of s]
    by simp
next
  case (Cons d ds)
  let ?s1 = "documentChanged s"
  let ?s2 = "elapse d ?s1"
  have wf1: "wf_state ?s1" using Cons.prems(1) by (rule documentChanged_wf)
  have pp1: "pending_persist ?s1 = [\<lparr>handle = next_handle s, due = now s + 5000, callback = PersistCb\<rparr>]"
    using Cons.prems(1) by (rule documentChanged_pending)
  have d: "d < 5000" using Cons.prems(2) by simp
  have "\<forall>t\<in>set (pending_persist ?s1). now ?s1 + d < due t"
    using pp1 d documentChanged_frame [of s] by simp
  from run_until_no_persist_due [OF this]
  have keep: "effects ?s2 = effects ?s1" by (simp add: elapse_def)
  have wf2: "wf_state ?s2" using wf1 by (rule elapse_wf)
  have now2: "now ?s2 = now s + d"
    using documentChanged_frame [of s] by (simp add: elapse_def run_until_now)
  have api2: "apiEditor ?s2 = apiEditor s"
    using documentChanged_frame [of s] run_until_frame [of "now ?s1 + d" ?s1]
    by (simp add: elapse_def)
  from Cons.prems(2) have "list_all (\<lambda>d. d < 5000) ds" by simp
  from Cons.IH [OF wf2 this] keep now2 api2 documentChanged_frame [of s]
  show ?case by auto
qed

lemma initial_wf: "wf_state (initial api enc)"
  by (simp add: wf_state_def initial_def pending_persist_def)

subsection \<open>Unfolding the model on a concrete run\<close>

lemmas op_defs = documentChanged_def setTimeout_def clearTimeout_def truthy_def
  save_request_def save_settled_def close_def storage_clear_def emit_def
  generate_request_def generate_settled_def saveExt_def closeSuccessToast_def
  closeErrorToast_def setValidation_def saveAndClose_request_def saveAndClose_settled_def

lemmas scenario_defs = session0_def text_session0_def initial_def empty_object_lib_def
  empty_object_api_def text_api_def quota_exceeded_def elapse_def next_due_def
  pending_persist_def pending_toast_def persistence_writes_def closed_signals_def

subsection \<open>Timers that stay and timers that go\<close>



subsection \<open>What the quiet events leave alone\<close>

lemma step_quiet:
  "quiet ev \<Longrightarrow>
   generateError (step lib ev s) = generateError s \<and>
   generating (step lib ev s) = generating s \<and>
   (ev \<noteq> CloseErrorToast \<longrightarrow> showErrorToast (step lib ev s) = showErrorToast s)"
proof (cases ev)
  case DocumentChanged
  then show ?thesis using documentChanged_frame [of s] by simp
next
  case SaveExt
  then show ?thesis
    by (simp add: saveExt_def emit_def split: spec_value.splits option.splits ApiFileEncoding.splits)
next
  case (Elapse dt)
  then show ?thesis using run_until_frame [of "now s + dt" s] by (simp add: elapse_def)
qed (simp_all add: closeSuccessToast_def closeErrorToast_def clearTimeout_def setValidation_def
       split: option.splits)

lemma run_quiet:
  "list_all quiet evs \<Longrightarrow>
   generateError (run lib evs s) = generateError s \<and>
   generating (run lib evs s) = generating s \<and>
   (CloseErrorToast \<notin> set evs \<longrightarrow> showErrorToast (run lib evs s) = showErrorToast s)"
proof (induction evs arbitrary: s)
  case Nil
  then show ?case by simp
next
  case (Cons ev evs)
  from Cons.prems have q: "quiet ev" and qs: "list_all quiet evs" by simp_all
  from step_quiet [OF q, of lib s] Cons.IH [OF qs, of "step lib ev s"] show ?case
    by auto
qed

subsection \<open>Every reachable state is well-formed\<close>

lemma wf_state_shrink:
  assumes "wf_state s" and "next_handle s' \<noteq> 0"
    and "persistenceTimeout s' = persistenceTimeout s"
    and "pending_persist s' = filter P (pending_persist s)"
  shows "wf_state s'"
  unfolding wf_state_def
proof (intro conjI)
  show "next_handle s' \<noteq> 0" by fact
  have "length (filter P (pending_persist s)) \<le> 1"
    by (rule le_trans [OF length_filter_le]) (use assms(1) in \<open>simp add: wf_state_def\<close>)
  with assms(4) show "length (pending_persist s') \<le> 1" by simp
  from assms(1,3,4)
  show "list_all (\<lambda>t. handle t \<noteq> 0 \<and> persistenceTimeout s' = Some (handle t))
          (pending_persist s')"
    by (simp add: wf_state_def list_all_iff)
qed

lemma filter_swap: "filter P (filter Q xs) = filter Q (filter P xs)"
  by (induction xs) auto

lemma clearTimeout_pending:
  "pending_persist (clearTimeout h s) = filter (\<lambda>t. Some (handle t) \<noteq> h) (pending_persist s)"
proof (cases h)
  case None
  then show ?thesis by (simp add: clearTimeout_def pending_persist_def)
next
  case (Some i)
  have "(\<lambda>t. Some (handle t) \<noteq> Some i) = (\<lambda>t. handle t \<noteq> i)" by auto
  with Some show ?thesis
    using filter_swap [of "\<lambda>t. callback t = PersistCb" "\<lambda>t. handle t \<noteq> i" "timers s"]
    by (simp add: clearTimeout_def pending_persist_def)
qed

lemma clearTimeout_wf: "wf_state s \<Longrightarrow> wf_state (clearTimeout h s)"
proof -
  assume wf: "wf_state s"
  have "next_handle (clearTimeout h s) \<noteq> 0"
    "persistenceTimeout (clearTimeout h s) = persistenceTimeout s"
    using wf by (simp_all add: clearTimeout_def wf_state_def split: option.splits)
  from wf_state_shrink [OF wf this clearTimeout_pending] show ?thesis .
qed

lemma emit_wf: "wf_state (emit e s) = wf_state s"
  by (simp add: wf_state_def pending_persist_def emit_def)

lemma step_wf: "wf_state s \<Longrightarrow> wf_state (step lib ev s)"
proof (cases ev)
  case DocumentChanged
  assume "wf_state s"
  with DocumentChanged show ?thesis by (simp add: documentChanged_wf)
next
  case (Elapse dt)
  assume "wf_state s"
  with Elapse show ?thesis by (simp add: elapse_wf)
next
  case CloseSuccessToast
  assume wf: "wf_state s"
  then have "wf_state (s\<lparr>showSuccessToast := False\<rparr>)"
    by (simp add: wf_state_def pending_persist_def)
  from clearTimeout_wf [OF this] CloseSuccessToast show ?thesis
    by (simp add: closeSuccessToast_def)
next
  case CloseErrorToast
  assume wf: "wf_state s"
  then have "wf_state (s\<lparr>showErrorToast := False\<rparr>)"
    by (simp add: wf_state_def pending_persist_def)
  from clearTimeout_wf [OF this] CloseErrorToast show ?thesis
    by (simp add: closeErrorToast_def)
next
  case SaveExt
  assume "wf_state s"
  with SaveExt show ?thesis
    by (simp add: saveExt_def emit_wf split: spec_value.splits option.splits ApiFileEncoding.splits)
next
  case (Save format)
  assume "wf_state s"
  then have "wf_state (s\<lparr>generateError := None\<rparr>)"
    by (simp add: wf_state_def pending_persist_def)
  with Save show ?thesis
    by (simp add: save_request_def emit_wf Let_def split: spec_value.splits)
next
  case (SaveSettled r)
  assume "wf_state s"
  then have "wf_state (s\<lparr>storage := None\<rparr>)"
    by (simp add: wf_state_def pending_persist_def)
  with SaveSettled \<open>wf_state s\<close> show ?thesis
    by (simp add: save_settled_def storage_clear_def emit_wf split: settled.splits)
next
  case Close
  assume "wf_state s"
  then have "wf_state (s\<lparr>generateError := None, storage := None\<rparr>)"
    by (simp add: wf_state_def pending_persist_def)
  with Close show ?thesis
    by (simp add: close_def storage_clear_def emit_wf)
next
  case SaveAndClose
  assume "wf_state s"
  then have "wf_state (s\<lparr>generateError := None\<rparr>)"
    by (simp add: wf_state_def pending_persist_def)
  with SaveAndClose show ?thesis
    by (simp add: saveAndClose_request_def save_request_def emit_wf Let_def split: spec_value.splits)
next
  case (SaveAndCloseSettled r)
  assume "wf_state s"
  then have "wf_state (s\<lparr>storage := None\<rparr>)"
    "wf_state (s\<lparr>storage := None, effects := effects s @ [(now s, StorageClear)],
                 generateError := None, storage := None\<rparr>)"
    by (simp_all add: wf_state_def pending_persist_def)
  with SaveAndCloseSettled \<open>wf_state s\<close> show ?thesis
    by (auto simp: saveAndClose_settled_def save_settled_def close_def storage_clear_def
        emit_def wf_state_def pending_persist_def split: settled.splits)
next
  case (Generate gconfig)
  assume "wf_state s"
  then have "wf_state (s\<lparr>generateError := None, showErrorToast := False,
       showSuccessToast := False, generating := True\<rparr>)"
    by (simp add: wf_state_def pending_persist_def)
  with Generate show ?thesis
    by (simp add: generate_request_def emit_wf Let_def)
next
  case (GenerateSettled r)
  assume "wf_state s"
  with GenerateSettled show ?thesis
    by (simp add: generate_settled_def setTimeout_def wf_state_def pending_persist_def
        split: settled.splits)
next
  case (SetValidation enabled)
  assume "wf_state s"
  with SetValidation show ?thesis
    by (simp add: setValidation_def wf_state_def pending_persist_def)
qed

lemma run_wf: "wf_state s \<Longrightarrow> wf_state (run lib evs s)"
  by (induction evs arbitrary: s) (simp_all add: step_wf)

lemma reachable_wf: "wf_state (run lib evs (initial api enc))"
  by (rule run_wf) (rule initial_wf)

subsection \<open>Time passing between events\<close>


lemma elapse_no_persist:
  "pending_persist s = [] \<Longrightarrow>
   effects (elapse dt s) = effects s \<and> storage (elapse dt s) = storage s \<and>
   pending_persist (elapse dt s) = []"
  using run_until_no_persist_due [of s "now s + dt"] by (simp add: elapse_def)




section \<open>Recovery persistence\<close>

text \<open>
  C2. A burst of edits, each less than 5000 ms after the one before, is followed by
  exactly one persistence write: nothing is written while less than 5000 ms have passed
  since the last edit, and once they have, the writes are those from before the burst and
  one more, made 5000 ms after the last edit. At every instant of the burst (any time
  \<open>T'\<close> after the edit number \<open>k + 1\<close>) at most one persistence timer is pending.
\<close>

theorem debounce_single_write:
  assumes "wf_state s" and "list_all (\<lambda>d. d < 5000) ds"
  shows "persistence_writes (elapse T (edits ds s)) =
           persistence_writes s @
           (if 5000 \<le> T then [(now (edits ds s) + 5000, StorageStore (apiEditor s))] else []) \<and>
         now (edits ds s) = now s + sum_list ds \<and>
         (\<forall>k T'. length (pending_persist (elapse T' (edits (take k ds) s))) \<le> 1)"
proof -
  let ?s' = "edits ds s"
  from edits_facts [OF assms] obtain p where
    pp: "pending_persist ?s' = [p]" and dp: "due p = now ?s' + 5000" and
    eff: "effects ?s' = effects s" and api: "apiEditor ?s' = apiEditor s" and
    nw: "now ?s' = now s + sum_list ds"
    by blast
  have writes: "persistence_writes (elapse T ?s') =
           persistence_writes s @
           (if 5000 \<le> T then [(now ?s' + 5000, StorageStore (apiEditor s))] else [])"
  proof (cases "5000 \<le> T")
    case True
    with dp have "due p \<le> now ?s' + T" "now ?s' \<le> due p" by simp_all
    from run_until_persist_due [OF pp this] True dp eff api show ?thesis
      by (simp add: elapse_def persistence_writes_def)
  next
    case False
    with pp dp have "\<forall>t\<in>set (pending_persist ?s'). now ?s' + T < due t" by simp
    from run_until_no_persist_due [OF this] False eff show ?thesis
      by (simp add: elapse_def persistence_writes_def)
  qed
  have one: "length (pending_persist (elapse T' (edits (take k ds) s))) \<le> 1" for k T'
  proof -
    from assms(2) have "list_all (\<lambda>d. d < 5000) (take k ds)"
      by (auto simp: list_all_iff dest: in_set_takeD)
    from edits_facts [OF assms(1) this] have "wf_state (edits (take k ds) s)" by simp
    then have "wf_state (elapse T' (edits (take k ds) s))" by (rule elapse_wf)
    then show ?thesis by (simp add: wf_state_def)
  qed
  from writes nw one show ?thesis by blast
qed

theorem debounce_single_write_witness:
  "wf_state session0 \<and>
   list_all (\<lambda>d. d < 5000) [2000 :: nat] \<and>
   persistence_writes (elapse 5000 (edits [2000] session0)) =
     [(7000, StorageStore empty_object_api)] \<and>
   persistence_writes (elapse 4999 (edits [2000] session0)) = [] \<and>
   length (pending_persist (elapse 1000 (edits (take 1 [2000]) session0))) \<le> 1"
proof -
  let ?s = "session0"
  have wf: "wf_state ?s" unfolding session0_def by (rule initial_wf)
  have gaps: "list_all (\<lambda>d. d < 5000) [2000 :: nat]" by simp
  have init: "persistence_writes ?s = []" "now ?s = 0" "apiEditor ?s = empty_object_api"
    by (simp_all add: persistence_writes_def initial_def session0_def)
  have late: "persistence_writes (elapse 5000 (edits [2000] ?s)) =
      [(7000, StorageStore empty_object_api)]"
    using debounce_single_write [OF wf gaps, of 5000] init by simp
  have early: "persistence_writes (elapse 4999 (edits [2000] ?s)) = []"
    using debounce_single_write [OF wf gaps, of 4999] init by simp
  have one: "length (pending_persist (elapse 1000 (edits (take 1 [2000]) ?s))) \<le> 1"
    using debounce_single_write [OF wf gaps, of 0] by blast
  from wf gaps late early one show ?thesis by blast
qed

section \<open>Save and close\<close>

text \<open>
  C1. The session has one edit at time 0; at time 1000 a save is made and its transport
  call succeeds, or the editor is closed. Right after the save's reaction, and right after
  close, the recovery store is empty, but the persistence timer of the edit is still
  pending: neither method cancels it. At time 5000 it fires and stores a snapshot, so with
  no further edit the recovery store is filled again.
\<close>

theorem save_close_timer_still_fires:
  "storage
     (run empty_object_lib
        [DocumentChanged, Elapse 1000, Save ''json'', SaveSettled (Fulfilled True)] session0) =
     None \<and>
   pending_persist
     (run empty_object_lib
        [DocumentChanged, Elapse 1000, Save ''json'', SaveSettled (Fulfilled True)] session0) =
     [\<lparr>handle = 1, due = 5000, callback = PersistCb\<rparr>] \<and>
   persistence_writes
     (run empty_object_lib
        [DocumentChanged, Elapse 1000, Save ''json'', SaveSettled (Fulfilled True),
         Elapse 4000] session0) =
     [(5000, StorageStore empty_object_api)] \<and>
   storage
     (run empty_object_lib
        [DocumentChanged, Elapse 1000, Save ''json'', SaveSettled (Fulfilled True),
         Elapse 4000] session0) =
     Some empty_object_api \<and>
   storage
     (run empty_object_lib [DocumentChanged, Elapse 1000, Close] session0) = None \<and>
   pending_persist
     (run empty_object_lib [DocumentChanged, Elapse 1000, Close] session0) =
     [\<lparr>handle = 1, due = 5000, callback = PersistCb\<rparr>] \<and>
   persistence_writes
     (run empty_object_lib [DocumentChanged, Elapse 1000, Close, Elapse 4000] session0) =
     [(5000, StorageStore empty_object_api)] \<and>
   storage
     (run empty_object_lib [DocumentChanged, Elapse 1000, Close, Elapse 4000] session0) =
     Some empty_object_api"
  by (simp add: op_defs scenario_defs cb_defs run_until.simps)

text \<open>
  C4. When the transport call made by the save of saveAndClose rejects, the reaction of
  saveAndClose changes nothing: no closed signal is emitted, the recovery store is as it
  was and no call at all is made. When the call succeeds, the save's reaction clears the
  store and close runs, emitting the closed signal once.
\<close>

theorem saveAndClose_closes_only_on_success:
  "saveAndClose_settled (Rejected e) s = s \<and>
   closed_signals (saveAndClose_settled (Rejected e) s) = closed_signals s \<and>
   storage (saveAndClose_settled (Rejected e) s) = storage s \<and>
   closed_signals (saveAndClose_request lib s) = closed_signals s \<and>
   saveAndClose_settled (Fulfilled rval) s = close (snd (save_settled (Fulfilled rval) s)) \<and>
   closed_signals (saveAndClose_settled (Fulfilled rval) s) =
     closed_signals s @ [(now s, OnCloseEmit)]"
proof -
  have rej: "saveAndClose_settled (Rejected e) s = s"
    by (simp add: saveAndClose_settled_def save_settled_def)
  have req: "closed_signals (saveAndClose_request lib s) = closed_signals s"
    by (cases "spec (apiEditor s)")
      (simp_all add: saveAndClose_request_def save_request_def emit_def closed_signals_def
         Let_def)
  have ful: "saveAndClose_settled (Fulfilled rval) s = close (snd (save_settled (Fulfilled rval) s))"
    by (simp add: saveAndClose_settled_def save_settled_def)
  have sig: "closed_signals (close (snd (save_settled (Fulfilled rval) s))) =
      closed_signals s @ [(now s, OnCloseEmit)]"
    by (simp add: save_settled_def close_def storage_clear_def emit_def closed_signals_def)
  from rej req ful sig show ?thesis by simp
qed

text \<open>
  C6, as amended. When the transport call of a save rejects, the promise save returned
  rejects with the same error and the reaction changes nothing. The call of save itself
  leaves the toast flags, the toast timer handle, the timer table and the recovery state
  as they were, but it has reset the stored error message before calling the transport.
\<close>

theorem save_failure_propagates:
  "fst (save_settled (Rejected e) s') = Rejected e \<and>
   snd (save_settled (Rejected e) s') = s' \<and>
   showSuccessToast (save_request lib format s) = showSuccessToast s \<and>
   showErrorToast (save_request lib format s) = showErrorToast s \<and>
   toastTimeoutId (save_request lib format s) = toastTimeoutId s \<and>
   timers (save_request lib format s) = timers s \<and>
   persistenceTimeout (save_request lib format s) = persistenceTimeout s \<and>
   storage (save_request lib format s) = storage s \<and>
   generateError (save_request lib format s) = None"
  by (cases "spec (apiEditor s)")
    (simp_all add: save_settled_def save_request_def emit_def Let_def)

theorem save_failure_message_counterexample:
  "generateError
     (run empty_object_lib [Generate (), GenerateSettled (Rejected quota_exceeded)] session0) =
     Some ''quota exceeded'' \<and>
   generateError
     (run empty_object_lib
        [Generate (), GenerateSettled (Rejected quota_exceeded),
         Save ''json'', SaveSettled (Rejected quota_exceeded)] session0) = None"
  by (simp add: op_defs scenario_defs)

section \<open>What the transports are called with\<close>

text \<open>
  C7. Whatever the session's encoding, generate makes exactly one call, to the generation
  transport, with the configuration as given, the document as the specification's encoder
  serializes it for JSON, and the file name \<^verbatim>\<open>camel-project.zip\<close>.
\<close>

theorem generate_sends_json:
  "effects (generate_request lib gconfig (s\<lparr>encoding := enc\<rparr>)) =
     effects s @
     [(now s, GenerateAndDownload gconfig (Encoder_serialize lib (spec (apiEditor s)) JSON)
                ''camel-project.zip'')]"
  by (cases "spec (apiEditor s)") (simp_all add: generate_request_def emit_def)

text \<open>
  C8, as amended. Save makes exactly one call, to the export transport. For a structured
  document the file name is \<^verbatim>\<open>openapi-spec.json\<close> when the format is \<^verbatim>\<open>json\<close> and
  \<^verbatim>\<open>openapi-spec.yaml\<close> otherwise; for a document that is already text it is
  \<^verbatim>\<open>openapi-spec\<close> with no extension, whatever the format.
\<close>

theorem save_filename:
  "effects (save_request lib format s) =
     effects s @
     [(now s,
       DownloadToFS
         (Encoder_serialize lib (spec (apiEditor s)) (if format = ''json'' then JSON else YAML))
         ''application/json''
         (case spec (apiEditor s) of
            Structured d \<Rightarrow>
              if format = ''json'' then ''openapi-spec.json'' else ''openapi-spec.yaml''
          | RawText t \<Rightarrow> ''openapi-spec''))]"
  by (cases "spec (apiEditor s)") (simp_all add: save_request_def emit_def Let_def)

theorem save_filename_counterexample:
  "effects (save_request empty_object_lib ''json'' text_session0) =
     [(0, DownloadToFS ''openapi: 3.0.2'' ''application/json'' ''openapi-spec'')]"
  by (simp add: op_defs scenario_defs)

text \<open>
  C9, as amended. With a structured document and a bound encoding, saveExt sends exactly
  one host message, \<^verbatim>\<open>save-req\<close>, carrying the text the specification's encoder gives for
  the session's encoding (with the encoding unbound the message carries the document as
  it is). With a document that is already text it sends nothing. In every case it makes
  no call to the download transport and leaves the timer table, the stored handle and the
  recovery store as they were.
\<close>

theorem saveExt_message:
  "(spec (apiEditor s) = Structured d \<and> encoding s = Some enc \<longrightarrow>
      effects (saveExt lib s) =
        effects s @
        [(now s, SendMessage ''save-req'' (RawText (Encoder_serialize lib (Structured d) enc)))]) \<and>
   (spec (apiEditor s) = Structured d \<and> encoding s = None \<longrightarrow>
      effects (saveExt lib s) = effects s @ [(now s, SendMessage ''save-req'' (Structured d))]) \<and>
   (spec (apiEditor s) = RawText t \<longrightarrow> effects (saveExt lib s) = effects s) \<and>
   download_calls (saveExt lib s) = download_calls s \<and>
   timers (saveExt lib s) = timers s \<and>
   persistenceTimeout (saveExt lib s) = persistenceTimeout s \<and>
   storage (saveExt lib s) = storage s"
  by (cases "spec (apiEditor s)"; cases enc)
    (auto simp: saveExt_def emit_def download_calls_def
      split: option.splits ApiFileEncoding.splits)

theorem saveExt_message_witness:
  "spec (apiEditor session0) = Structured () \<and> encoding session0 = Some JSON \<and>
   effects (saveExt empty_object_lib session0) = [(0, SendMessage ''save-req'' (RawText ''{}''))] \<and>
   spec (apiEditor text_session0) = RawText ''openapi: 3.0.2'' \<and>
   effects (saveExt empty_object_lib text_session0) = []"
proof -
  have a: "spec (apiEditor session0) = Structured ()" "encoding session0 = Some JSON"
    "effects session0 = []" "now session0 = 0"
    "Encoder_serialize empty_object_lib (Structured ()) JSON = ''{}''"
    by (simp_all add: scenario_defs)
  have b: "spec (apiEditor text_session0) = RawText ''openapi: 3.0.2''" "effects text_session0 = []"
    by (simp_all add: scenario_defs)
  from saveExt_message [where s = session0 and d = "()" and enc = JSON and lib = empty_object_lib]
    saveExt_message [where s = text_session0 and t = "''openapi: 3.0.2''"
      and lib = empty_object_lib] a b
  show ?thesis by simp
qed

theorem saveExt_text_counterexample:
  "spec (apiEditor text_session0) = RawText ''openapi: 3.0.2'' \<and>
   effects (saveExt empty_object_lib text_session0) = []"
  by (simp add: op_defs scenario_defs)

section \<open>Generation and its toasts\<close>

text \<open>
  C3. When the transport call of generate rejects with an error, the reaction leaves
  \<open>generating\<close> false, stores the error's message and shows the error toast. It starts no
  timer (the timer table and the toast handle are as before), and the three facts stay
  true through any run of events that are no part of a save, close or generate call and
  do not dismiss the error toast, however much time passes in it.
\<close>

theorem generate_failure_error_persists:
  "\<not> generating (generate_settled (Rejected e) s) \<and>
   generateError (generate_settled (Rejected e) s) = Some (message e) \<and>
   showErrorToast (generate_settled (Rejected e) s) \<and>
   timers (generate_settled (Rejected e) s) = timers s \<and>
   toastTimeoutId (generate_settled (Rejected e) s) = toastTimeoutId s \<and>
   (\<forall>evs. list_all quiet evs \<and> CloseErrorToast \<notin> set evs \<longrightarrow>
      \<not> generating (run lib evs (generate_settled (Rejected e) s)) \<and>
      generateError (run lib evs (generate_settled (Rejected e) s)) = Some (message e) \<and>
      showErrorToast (run lib evs (generate_settled (Rejected e) s)))"
proof -
  let ?s' = "generate_settled (Rejected e) s"
  have at: "\<not> generating ?s'" "generateError ?s' = Some (message e)" "showErrorToast ?s'"
    "timers ?s' = timers s" "toastTimeoutId ?s' = toastTimeoutId s"
    by (simp_all add: generate_settled_def)
  have "\<not> generating (run lib evs ?s') \<and> generateError (run lib evs ?s') = Some (message e) \<and>
      showErrorToast (run lib evs ?s')"
    if "list_all quiet evs" and "CloseErrorToast \<notin> set evs" for evs
    using run_quiet [OF that(1), of lib ?s'] that(2) at by simp
  with at show ?thesis by blast
qed

theorem generate_failure_error_persists_witness:
  "list_all quiet [Elapse 100000, DocumentChanged, Elapse 7000 :: unit event] \<and>
   CloseErrorToast \<notin> set [Elapse 100000, DocumentChanged, Elapse 7000 :: unit event] \<and>
   \<not> generating
       (run empty_object_lib [Elapse 100000, DocumentChanged, Elapse 7000]
          (generate_settled (Rejected quota_exceeded)
             (generate_request empty_object_lib () session0))) \<and>
   generateError
       (run empty_object_lib [Elapse 100000, DocumentChanged, Elapse 7000]
          (generate_settled (Rejected quota_exceeded)
             (generate_request empty_object_lib () session0))) = Some ''quota exceeded'' \<and>
   showErrorToast
       (run empty_object_lib [Elapse 100000, DocumentChanged, Elapse 7000]
          (generate_settled (Rejected quota_exceeded)
             (generate_request empty_object_lib () session0)))"
proof -
  have q: "list_all quiet [Elapse 100000, DocumentChanged, Elapse 7000 :: unit event]"
    "CloseErrorToast \<notin> set [Elapse 100000, DocumentChanged, Elapse 7000 :: unit event]"
    by simp_all
  have m: "message quota_exceeded = ''quota exceeded''" by (simp add: quota_exceeded_def)
  from generate_failure_error_persists
    [of quota_exceeded "generate_request empty_object_lib () session0" empty_object_lib] q m
  show ?thesis by (metis (no_types, lifting))
qed




text \<open>
  C10. Dismissing the error toast resets the toast's flag and cancels the timer whose
  handle \<^verbatim>\<open>toastTimeoutId\<close> holds, and nothing else: the stored error message is as it
  was. It stays so through any run of events that are no part of a save, close or
  generate call; each of these three calls resets it.
\<close>

theorem closeErrorToast_keeps_message:
  "closeErrorToast s =
     s\<lparr>showErrorToast := False,
       timers := filter (\<lambda>t. Some (handle t) \<noteq> toastTimeoutId s) (timers s)\<rparr> \<and>
   generateError (closeErrorToast s) = generateError s \<and>
   (\<forall>evs. list_all quiet evs \<longrightarrow>
      generateError (run lib evs (closeErrorToast s)) = generateError s) \<and>
   generateError (save_request lib format s') = None \<and>
   generateError (close s') = None \<and>
   generateError (generate_request lib gconfig s') = None"
proof -
  have eq: "closeErrorToast s =
     s\<lparr>showErrorToast := False,
       timers := filter (\<lambda>t. Some (handle t) \<noteq> toastTimeoutId s) (timers s)\<rparr>"
    by (cases "toastTimeoutId s") (simp_all add: closeErrorToast_def clearTimeout_def)
  then have keep: "generateError (closeErrorToast s) = generateError s" by simp
  have run: "generateError (run lib evs (closeErrorToast s)) = generateError s"
    if "list_all quiet evs" for evs
    using run_quiet [OF that, of lib "closeErrorToast s"] keep by simp
  have reset: "generateError (save_request lib format s') = None"
    "generateError (close s') = None" "generateError (generate_request lib gconfig s') = None"
    by (cases "spec (apiEditor s')";
        simp add: save_request_def close_def generate_request_def storage_clear_def emit_def
          Let_def)+
  from eq keep run reset show ?thesis by blast
qed

theorem closeErrorToast_keeps_message_witness:
  "list_all quiet [Elapse 100000, DocumentChanged, SaveExt, CloseSuccessToast :: unit event] \<and>
   generateError
     (run empty_object_lib [Elapse 100000, DocumentChanged, SaveExt, CloseSuccessToast]
        (closeErrorToast
           (run empty_object_lib [Generate (), GenerateSettled (Rejected quota_exceeded)]
              session0))) = Some ''quota exceeded''"
proof -
  let ?s = "run empty_object_lib [Generate (), GenerateSettled (Rejected quota_exceeded)] session0"
  have q: "list_all quiet [Elapse 100000, DocumentChanged, SaveExt, CloseSuccessToast :: unit event]"
    by simp
  have m: "generateError ?s = Some ''quota exceeded''"
    by (simp add: op_defs scenario_defs)
  from closeErrorToast_keeps_message [of ?s empty_object_lib] q m show ?thesis by metis
qed

end
